theory Spec2Isabelle
  imports Complex_Main "HOL-Library.Word"
begin

section \<open>Data model (babylon_native_simple.hpp)\<close>

text \<open>
  The renderer class \<open>SimpleRenderer\<close> and its nested struct \<open>Cube\<close> are records.
  In these records a C++ \<open>float\<close> is modelled by a \<open>real\<close>, without rounding, infinities
  or NaN; where those decide a property, the arithmetic of the animation loop is modelled
  again on float32 values in the section on float32 arithmetic below.
  \<open>uint32_t\<close> and \<open>uint64_t\<close> are words of that width, so \<open>frame_count++\<close> wraps at
  \<open>2 ^ 64\<close>. A \<open>float[3]\<close> is a triple.
  A \<open>size_t\<close> index is only ever compared with \<open>cubes.size()\<close> and is a \<open>nat\<close>.
  Console output (\<open>std::cout\<close>) is not modelled.
\<close>

type_synonym float3 = "real \<times> real \<times> real"

record Cube =
  cube_x :: real
  cube_y :: real
  cube_z :: real
  cube_size :: real
  cube_color :: float3
  rotation_speed :: real
  cube_animation_time :: real

text \<open>
  The four members under \<open>#ifdef _WIN32\<close> are kept in the record for both builds; a
  pointer is modelled by whether it is non-null.
\<close>

record SimpleRenderer =
  width :: "32 word"
  height :: "32 word"
  frame_count :: "64 word"
  clear_color :: float3
  native_rendering_enabled :: bool
  cubes :: "Cube list"
  animation_time :: real
  camera_orbit_angle :: real
  camera_distance :: real
  camera_height :: real
  animation_enabled :: bool
  directx_initialized :: bool
  window_handle :: "64 word"
  d3d_device :: bool
  d3d_context :: bool
  swap_chain :: bool

text \<open>
  What the external call \<open>D3D11CreateDeviceAndSwapChain\<close> hands back: whether the
  \<open>HRESULT\<close> is a success, and whether each of the three out-pointers is non-null.
\<close>

record d3d_create_result =
  hr_succeeded :: bool
  out_swap_chain :: bool
  out_device :: bool
  out_context :: bool

section \<open>Operations (babylon_native_simple.cpp)\<close>

text \<open>
  \<open>add_cube\<close>: \<open>rnd\<close> is the value returned by \<open>rand()\<close> and \<open>rand_max\<close> the
  constant \<open>RAND_MAX\<close> of the C library, both parameters of the model.
\<close>

definition add_cube :: "nat \<Rightarrow> real \<Rightarrow> real \<Rightarrow> real \<Rightarrow> real \<Rightarrow> nat \<Rightarrow> SimpleRenderer \<Rightarrow> SimpleRenderer" where
  "add_cube rand_max x y z sz rnd r =
     (let cube = \<lparr> cube_x = x, cube_y = y, cube_z = z, cube_size = sz,
                   cube_color = (1.0, 0.0, 0.0),
                   rotation_speed = 1.0 + (real rnd / real rand_max) * 2.0,
                   cube_animation_time = 0.0 \<rparr>
      in r\<lparr> cubes := cubes r @ [cube] \<rparr>)"

text \<open>
  The constructor: the member initialisers of the header, null pointers, then the default
  cube \<open>add_cube(0, 0, 0, 1)\<close>.
\<close>

definition SimpleRenderer_new :: "nat \<Rightarrow> 32 word \<Rightarrow> 32 word \<Rightarrow> nat \<Rightarrow> SimpleRenderer" where
  "SimpleRenderer_new rand_max w h rnd =
     add_cube rand_max 0.0 0.0 0.0 1.0 rnd
       \<lparr> width = w, height = h, frame_count = 0,
         clear_color = (0.1, 0.1, 0.15),
         native_rendering_enabled = False,
         cubes = [],
         animation_time = 0.0,
         camera_orbit_angle = 0.0,
         camera_distance = 10.0,
         camera_height = 5.0,
         animation_enabled = True,
         directx_initialized = False,
         window_handle = 0,
         d3d_device = False, d3d_context = False, swap_chain = False \<rparr>"

text \<open>The body of the loop of \<open>update_animation\<close>, for one cube.\<close>

definition update_cube :: "real \<Rightarrow> Cube \<Rightarrow> Cube" where
  "update_cube delta_time cube =
     (let t = cube_animation_time cube + delta_time * rotation_speed cube;
          base_y = cube_y cube
      in cube\<lparr> cube_animation_time := t,
                cube_y := base_y + sin t * 0.5,
                cube_color := (0.5 + 0.5 * sin t,
                               0.5 + 0.5 * sin (t + 2.094),
                               0.5 + 0.5 * sin (t + 4.188)) \<rparr>)"

definition update_animation :: "real \<Rightarrow> SimpleRenderer \<Rightarrow> SimpleRenderer" where
  "update_animation delta_time r =
     (let a = camera_orbit_angle r + delta_time * 0.5;
          a' = (if a > 2.0 * 3.14159 then a - 2.0 * 3.14159 else a)
      in r\<lparr> animation_time := animation_time r + delta_time,
            camera_orbit_angle := a',
            cubes := map (update_cube delta_time) (cubes r) \<rparr>)"

text \<open>
  The animation block at the head of \<open>render_frame\<close>. The source reads
  \<open>delta_time\<close> from the clock (the time since the previous call); the model takes it as
  a parameter.
\<close>

definition step_animation :: "real \<Rightarrow> SimpleRenderer \<Rightarrow> SimpleRenderer" where
  "step_animation delta_time r =
     (if animation_enabled r then update_animation delta_time r else r)"

text \<open>
  The three branches of \<open>render_frame\<close>. Each yields what it hands to the graphics
  API, headed by a mark of the branch entered. \<open>win32\<close> says whether \<open>_WIN32\<close> was defined
  at compile time.
\<close>

datatype render_path = NativeDevice | NativePending | Fallback

datatype event =
    Enter render_path
  | ClearAndPresent float3
  | GlClear float3
  | GlWireCube real real real real float3

definition render_native :: "bool \<Rightarrow> SimpleRenderer \<Rightarrow> event list" where
  "render_native win32 r =
     Enter NativeDevice #
       (if win32 \<and> d3d_context r \<and> swap_chain r then [ClearAndPresent (clear_color r)] else [])"

definition render_pending :: "SimpleRenderer \<Rightarrow> event list" where
  "render_pending r = [Enter NativePending]"

definition render_fallback :: "SimpleRenderer \<Rightarrow> event list" where
  "render_fallback r =
     Enter Fallback # GlClear (clear_color r) #
       map (\<lambda>cube. GlWireCube (cube_x cube) (cube_y cube) (cube_z cube) (cube_size cube)
                     (cube_color cube)) (cubes r)"

definition render_frame :: "bool \<Rightarrow> real \<Rightarrow> SimpleRenderer \<Rightarrow> bool \<times> event list \<times> SimpleRenderer" where
  "render_frame win32 delta_time r =
     (let r1 = r\<lparr> frame_count := frame_count r + 1 \<rparr>;
          r2 = step_animation delta_time r1;
          evs = (if native_rendering_enabled r2 \<and> directx_initialized r2 then render_native win32 r2
                 else if native_rendering_enabled r2 then render_pending r2
                 else render_fallback r2)
      in (True, evs, r2))"

definition resize :: "32 word \<Rightarrow> 32 word \<Rightarrow> SimpleRenderer \<Rightarrow> SimpleRenderer" where
  "resize w h r = r\<lparr> width := w, height := h \<rparr>"

definition set_clear_color :: "real \<Rightarrow> real \<Rightarrow> real \<Rightarrow> SimpleRenderer \<Rightarrow> SimpleRenderer" where
  "set_clear_color cr cg cb r = r\<lparr> clear_color := (cr, cg, cb) \<rparr>"

definition set_window_handle :: "bool \<Rightarrow> 64 word \<Rightarrow> SimpleRenderer \<Rightarrow> SimpleRenderer" where
  "set_window_handle win32 handle r = (if win32 then r\<lparr> window_handle := handle \<rparr> else r)"

definition initialize_d3d11 :: "bool \<Rightarrow> d3d_create_result \<Rightarrow> SimpleRenderer \<Rightarrow> bool \<times> SimpleRenderer" where
  "initialize_d3d11 win32 res r =
     (if win32 then
        (if window_handle r = 0 then (False, r)
         else (hr_succeeded res,
               r\<lparr> swap_chain := out_swap_chain res,
                  d3d_device := out_device res,
                  d3d_context := out_context res \<rparr>))
      else (False, r))"

definition enable_native_rendering :: "bool \<Rightarrow> d3d_create_result \<Rightarrow> SimpleRenderer \<Rightarrow> SimpleRenderer" where
  "enable_native_rendering win32 res r =
     (let r1 = r\<lparr> native_rendering_enabled := True \<rparr>;
          (ok, r2) = initialize_d3d11 win32 res r1
      in if ok then r2\<lparr> directx_initialized := True \<rparr>
         else r2\<lparr> native_rendering_enabled := False \<rparr>)"

definition get_frame_count :: "SimpleRenderer \<Rightarrow> 64 word" where
  "get_frame_count r = frame_count r"

definition get_renderer_info :: "SimpleRenderer \<Rightarrow> string" where
  "get_renderer_info r =
     (if native_rendering_enabled r \<and> directx_initialized r then
        ''Native DirectX C++ Renderer (Animated)''
      else if native_rendering_enabled r then
        ''Native DirectX C++ Renderer (Initializing...)''
      else ''OpenGL Fallback C++ Renderer'')"

definition set_camera_orbit :: "real \<Rightarrow> real \<Rightarrow> real \<Rightarrow> SimpleRenderer \<Rightarrow> SimpleRenderer" where
  "set_camera_orbit angle distance h r =
     r\<lparr> camera_orbit_angle := angle, camera_distance := distance, camera_height := h \<rparr>"

definition toggle_animation :: "SimpleRenderer \<Rightarrow> SimpleRenderer" where
  "toggle_animation r = r\<lparr> animation_enabled := \<not> animation_enabled r \<rparr>"

definition move_object :: "nat \<Rightarrow> real \<Rightarrow> real \<Rightarrow> real \<Rightarrow> SimpleRenderer \<Rightarrow> SimpleRenderer" where
  "move_object index x y z r =
     (if index < length (cubes r) then
        r\<lparr> cubes := (cubes r)[index := (cubes r ! index)\<lparr> cube_x := x, cube_y := y, cube_z := z \<rparr>] \<rparr>
      else r)"

section \<open>Observing runs of the renderer\<close>

text \<open>The branches of \<open>render_frame\<close> that a list of events records as entered.\<close>

fun paths_of :: "event list \<Rightarrow> render_path list" where
  "paths_of [] = []"
| "paths_of (Enter p # evs) = p # paths_of evs"
| "paths_of (_ # evs) = paths_of evs"

text \<open>
  \<open>render_frame\<close> called once for each element of a list of clock differences, in order;
  the result is the renderer after the last call.
\<close>

fun render_frames :: "bool \<Rightarrow> real list \<Rightarrow> SimpleRenderer \<Rightarrow> SimpleRenderer" where
  "render_frames win32 [] r = r"
| "render_frames win32 (dt # dts) r = render_frames win32 dts (snd (snd (render_frame win32 dt r)))"

section \<open>float32 arithmetic of the animation loop\<close>

text \<open>
  The members of \<open>Cube\<close> are IEEE 754 binary32 numbers. A value is a finite real (meant to
  be one of the representable ones, see \<open>is_f32\<close>), an infinity or NaN; the sign of zero is
  not modelled.
\<close>

datatype f32 = Finite real | PInf | NInf | NaN

text \<open>
  Rounding to nearest, ties to even: \<open>rne\<close> rounds a real to an integer, \<open>expo\<close> is the
  binary exponent of a number (not below -126, where the subnormal numbers begin),
  \<open>ulp\<close> the spacing of the 24-bit significands at that exponent. \<open>to_f32\<close> is the
  result of an operation whose exact value is \<open>x\<close>: the rounded value, or an infinity when
  the rounded value is beyond the largest finite float.
\<close>

definition rne :: "real \<Rightarrow> int" where
  "rne t = (let n = \<lfloor>t\<rfloor> in
            if t - of_int n < 1/2 then n
            else if 1/2 < t - of_int n then n + 1
            else if even n then n else n + 1)"

definition expo :: "real \<Rightarrow> int" where
  "expo x = max \<lfloor>log 2 \<bar>x\<bar>\<rfloor> (- 126)"

definition ulp :: "real \<Rightarrow> real" where
  "ulp x = 2 powr of_int (expo x - 23)"

definition round_nearest :: "real \<Rightarrow> real" where
  "round_nearest x = (if x = 0 then 0 else of_int (rne (x / ulp x)) * ulp x)"

definition to_f32 :: "real \<Rightarrow> f32" where
  "to_f32 x = (let y = round_nearest x in
               if 2 ^ 128 \<le> y then PInf else if y \<le> - (2 ^ 128) then NInf else Finite y)"

text \<open>The finite values that are float32 numbers are the fixed points of the rounding.\<close>

fun is_f32 :: "f32 \<Rightarrow> bool" where
  "is_f32 (Finite a) = (round_nearest a = a \<and> \<bar>a\<bar> < 2 ^ 128)"
| "is_f32 _ = True"

text \<open>
  The float operations the source uses, with the IEEE rules for infinities and NaN. The
  sine of the C library is taken to return the float nearest to the exact sine, and NaN at
  an infinity; \<open>sin\<close> applied to a \<open>float\<close> is taken to be the \<open>float\<close> overload, every
  operation of an expression being rounded to float32.
\<close>

fun f_add :: "f32 \<Rightarrow> f32 \<Rightarrow> f32" where
  "f_add NaN _ = NaN"
| "f_add _ NaN = NaN"
| "f_add PInf NInf = NaN"
| "f_add NInf PInf = NaN"
| "f_add PInf _ = PInf"
| "f_add _ PInf = PInf"
| "f_add NInf _ = NInf"
| "f_add _ NInf = NInf"
| "f_add (Finite a) (Finite b) = to_f32 (a + b)"

fun f_mul :: "f32 \<Rightarrow> f32 \<Rightarrow> f32" where
  "f_mul NaN _ = NaN"
| "f_mul _ NaN = NaN"
| "f_mul (Finite a) (Finite b) = to_f32 (a * b)"
| "f_mul (Finite a) PInf = (if a = 0 then NaN else if 0 < a then PInf else NInf)"
| "f_mul (Finite a) NInf = (if a = 0 then NaN else if 0 < a then NInf else PInf)"
| "f_mul PInf (Finite b) = (if b = 0 then NaN else if 0 < b then PInf else NInf)"
| "f_mul NInf (Finite b) = (if b = 0 then NaN else if 0 < b then NInf else PInf)"
| "f_mul PInf PInf = PInf"
| "f_mul PInf NInf = NInf"
| "f_mul NInf PInf = NInf"
| "f_mul NInf NInf = PInf"

fun f_div :: "f32 \<Rightarrow> f32 \<Rightarrow> f32" where
  "f_div NaN _ = NaN"
| "f_div _ NaN = NaN"
| "f_div (Finite a) (Finite b) =
     (if b = 0 then (if a = 0 then NaN else if 0 < a then PInf else NInf)
      else to_f32 (a / b))"
| "f_div (Finite a) _ = Finite 0"
| "f_div PInf (Finite b) = (if 0 \<le> b then PInf else NInf)"
| "f_div NInf (Finite b) = (if 0 \<le> b then NInf else PInf)"
| "f_div _ _ = NaN"

fun f_sin :: "f32 \<Rightarrow> f32" where
  "f_sin (Finite a) = to_f32 (sin a)"
| "f_sin _ = NaN"

fun f_le :: "f32 \<Rightarrow> f32 \<Rightarrow> bool" where
  "f_le NaN _ = False"
| "f_le _ NaN = False"
| "f_le NInf _ = True"
| "f_le _ PInf = True"
| "f_le PInf _ = False"
| "f_le _ NInf = False"
| "f_le (Finite a) (Finite b) = (a \<le> b)"


text \<open>
  \<open>struct Cube\<close> with float32 members, the speed that \<open>add_cube\<close> computes from
  \<open>rand()\<close> and \<open>RAND_MAX\<close>, the cube that \<open>add_cube\<close> appends, and the body of the
  loop of \<open>update_animation\<close>, written as \<open>update_cube\<close> above but with every
  operation on float32 values. The literals \<open>2.094f\<close> and \<open>4.188f\<close> are the floats
  nearest to those decimals.
\<close>

record Cube_f32 =
  x32 :: f32
  y32 :: f32
  z32 :: f32
  size32 :: f32
  color32 :: "f32 \<times> f32 \<times> f32"
  rotation_speed32 :: f32
  animation_time32 :: f32

definition speed_f32 :: "nat \<Rightarrow> nat \<Rightarrow> f32" where
  "speed_f32 rand_max rnd =
     f_add (Finite 1.0)
       (f_mul (f_div (to_f32 (real rnd)) (to_f32 (real rand_max))) (Finite 2.0))"

definition new_cube_f32 :: "nat \<Rightarrow> f32 \<Rightarrow> f32 \<Rightarrow> f32 \<Rightarrow> f32 \<Rightarrow> nat \<Rightarrow> Cube_f32" where
  "new_cube_f32 rand_max x y z sz rnd =
     \<lparr> x32 = x, y32 = y, z32 = z, size32 = sz,
       color32 = (Finite 1.0, Finite 0.0, Finite 0.0),
       rotation_speed32 = speed_f32 rand_max rnd,
       animation_time32 = Finite 0.0 \<rparr>"

definition update_cube_f32 :: "f32 \<Rightarrow> Cube_f32 \<Rightarrow> Cube_f32" where
  "update_cube_f32 delta_time cube =
     (let t = f_add (animation_time32 cube) (f_mul delta_time (rotation_speed32 cube));
          base_y = y32 cube
      in cube\<lparr> animation_time32 := t,
                y32 := f_add base_y (f_mul (f_sin t) (Finite 0.5)),
                color32 := (f_add (Finite 0.5) (f_mul (Finite 0.5) (f_sin t)),
                            f_add (Finite 0.5) (f_mul (Finite 0.5) (f_sin (f_add t (to_f32 2.094)))),
                            f_add (Finite 0.5) (f_mul (Finite 0.5) (f_sin (f_add t (to_f32 4.188))))) \<rparr>)"

section \<open>The animation block\<close>

lemma sin_one_pos: "0 < sin (1::real)"
proof -
  have "(1::real) < pi" using pi_ge_two by linarith
  then show ?thesis by (simp add: sin_gt_zero)
qed

text \<open>
  Claim C1 (the vertical position after each animation call is the creation-time base Y
  plus \<open>0.5 * sin phase\<close>, never a function of the previous y) does not hold of the code:
  \<open>update_animation\<close> reads its \<open>base_y\<close> from \<open>cube.y\<close>, the value the previous call
  wrote. A new renderer whose default cube was created at y = 0 with speed 1
  (\<open>rand()\<close> returned 0), stepped twice by one second, has phase 2 and
  y = \<open>0.5 * sin 1 + 0.5 * sin 2\<close>, which is not \<open>0 + 0.5 * sin 2\<close>.
\<close>

theorem base_y_drifts:
  "length (cubes (update_animation 1 (update_animation 1 (SimpleRenderer_new 32767 800 600 0)))) = 1 \<and>
   cube_y (hd (cubes (SimpleRenderer_new 32767 800 600 0))) = 0 \<and>
   cube_animation_time
     (hd (cubes (update_animation 1 (update_animation 1 (SimpleRenderer_new 32767 800 600 0))))) = 2 \<and>
   cube_y (hd (cubes (update_animation 1 (update_animation 1 (SimpleRenderer_new 32767 800 600 0)))))
     = 0.5 * sin 1 + 0.5 * sin 2 \<and>
   cube_y (hd (cubes (update_animation 1 (update_animation 1 (SimpleRenderer_new 32767 800 600 0)))))
     \<noteq> 0 + 0.5 * sin 2"
  using sin_one_pos
  by (simp add: SimpleRenderer_new_def add_cube_def update_animation_def update_cube_def Let_def)

text \<open>
  Claim C2 says that the animation stepper called with animation disabled changes
  nothing. \<open>update_animation\<close>, which the bridge exports, does not test
  \<open>animation_enabled\<close>: after \<open>toggle_animation\<close> has cleared the flag of a new
  renderer, \<open>update_animation(1)\<close> moves the phase of the cube from 0 to 1, its y from 0
  to \<open>0.5 * sin 1\<close> and the camera orbit angle from 0 to 0.5.
\<close>

theorem paused_update_animation_counterexample:
  "\<not> animation_enabled (toggle_animation (SimpleRenderer_new 32767 800 600 0)) \<and>
   cube_animation_time (hd (cubes (toggle_animation (SimpleRenderer_new 32767 800 600 0)))) = 0 \<and>
   cube_animation_time
     (hd (cubes (update_animation 1 (toggle_animation (SimpleRenderer_new 32767 800 600 0))))) = 1 \<and>
   cube_y (hd (cubes (toggle_animation (SimpleRenderer_new 32767 800 600 0)))) = 0 \<and>
   cube_y (hd (cubes (update_animation 1 (toggle_animation (SimpleRenderer_new 32767 800 600 0)))))
     = 0.5 * sin 1 \<and>
   0 < cube_y (hd (cubes (update_animation 1 (toggle_animation (SimpleRenderer_new 32767 800 600 0))))) \<and>
   camera_orbit_angle (toggle_animation (SimpleRenderer_new 32767 800 600 0)) = 0 \<and>
   camera_orbit_angle (update_animation 1 (toggle_animation (SimpleRenderer_new 32767 800 600 0)))
     = 0.5"
  using sin_one_pos
  by (simp add: toggle_animation_def SimpleRenderer_new_def add_cube_def update_animation_def
        update_cube_def Let_def)

lemma render_frame_paused:
  "\<not> animation_enabled r \<Longrightarrow>
     snd (snd (render_frame win32 dt r)) = r\<lparr> frame_count := frame_count r + 1 \<rparr>"
  by (simp add: render_frame_def step_animation_def Let_def)

text \<open>
  Claim C2, amended: while \<open>animation_enabled\<close> is false, any number of \<open>render_frame\<close>
  calls, with any clock differences, leave every cube (phase, position, colour and all)
  and the camera orbit angle as they were; only the frame counter moves. The flag is
  tested in \<open>render_frame\<close> alone: \<open>update_animation\<close> called directly advances the
  animation whatever the flag.
\<close>

theorem paused_frames_change_nothing:
  "\<not> animation_enabled r \<Longrightarrow>
     cubes (render_frames win32 dts r) = cubes r \<and>
     camera_orbit_angle (render_frames win32 dts r) = camera_orbit_angle r \<and>
     animation_time (render_frames win32 dts r) = animation_time r \<and>
     \<not> animation_enabled (render_frames win32 dts r) \<and>
     (render_frames win32 dts r)\<lparr> frame_count := frame_count r \<rparr> = r"
proof (induction dts arbitrary: r)
  case Nil
  then show ?case by simp
next
  case (Cons d dts)
  let ?r1 = "r\<lparr> frame_count := frame_count r + 1 \<rparr>"
  have step: "snd (snd (render_frame win32 d r)) = ?r1"
    using Cons.prems by (rule render_frame_paused)
  have "\<not> animation_enabled ?r1" using Cons.prems by simp
  from Cons.IH [OF this] have ih:
    "cubes (render_frames win32 dts ?r1) = cubes ?r1"
    "camera_orbit_angle (render_frames win32 dts ?r1) = camera_orbit_angle ?r1"
    "animation_time (render_frames win32 dts ?r1) = animation_time ?r1"
    "\<not> animation_enabled (render_frames win32 dts ?r1)"
    "(render_frames win32 dts ?r1)\<lparr> frame_count := frame_count ?r1 \<rparr> = ?r1"
    by blast+
  have "(render_frames win32 dts ?r1)\<lparr> frame_count := frame_count r \<rparr>
          = ((render_frames win32 dts ?r1)\<lparr> frame_count := frame_count ?r1 \<rparr>)\<lparr> frame_count := frame_count r \<rparr>"
    by simp
  also have "\<dots> = ?r1\<lparr> frame_count := frame_count r \<rparr>" by (simp only: ih(5))
  also have "\<dots> = r" by simp
  finally have whole: "(render_frames win32 dts ?r1)\<lparr> frame_count := frame_count r \<rparr> = r" .
  from ih(1-4) whole show ?case by (simp add: step)
qed

theorem paused_frames_change_nothing_witness:
  "\<not> animation_enabled (toggle_animation (SimpleRenderer_new 32767 800 600 0)) \<and>
   cubes (render_frames False [1, 2] (toggle_animation (SimpleRenderer_new 32767 800 600 0)))
     = cubes (toggle_animation (SimpleRenderer_new 32767 800 600 0)) \<and>
   camera_orbit_angle (render_frames False [1, 2] (toggle_animation (SimpleRenderer_new 32767 800 600 0)))
     = camera_orbit_angle (toggle_animation (SimpleRenderer_new 32767 800 600 0)) \<and>
   frame_count (render_frames False [1, 2] (toggle_animation (SimpleRenderer_new 32767 800 600 0))) = 2"
proof -
  let ?r = "toggle_animation (SimpleRenderer_new 32767 800 600 0)"
  have h: "\<not> animation_enabled ?r"
    by (simp add: toggle_animation_def SimpleRenderer_new_def add_cube_def)
  note th = paused_frames_change_nothing [OF h, of False "[1, 2]"]
  from th have a: "cubes (render_frames False [1, 2] ?r) = cubes ?r" by blast
  from th have b: "camera_orbit_angle (render_frames False [1, 2] ?r) = camera_orbit_angle ?r" by blast
  have c: "frame_count (render_frames False [1, 2] ?r) = 2"
    by (simp add: render_frame_paused h toggle_animation_def SimpleRenderer_new_def add_cube_def)
  from h a b c show ?thesis by blast
qed

section \<open>The render-mode selector\<close>

lemma render_frame_flags:
  "native_rendering_enabled (snd (snd (render_frame win32 dt r))) = native_rendering_enabled r"
  "directx_initialized (snd (snd (render_frame win32 dt r))) = directx_initialized r"
  by (simp_all add: render_frame_def step_animation_def update_animation_def Let_def)

lemma render_frames_flags:
  "native_rendering_enabled (render_frames win32 dts r) = native_rendering_enabled r \<and>
   directx_initialized (render_frames win32 dts r) = directx_initialized r"
  by (induction dts arbitrary: r) (simp_all add: render_frame_flags)

lemma render_frame_events:
  "fst (snd (render_frame win32 dt r)) =
     (let r2 = snd (snd (render_frame win32 dt r)) in
      if native_rendering_enabled r \<and> directx_initialized r then render_native win32 r2
      else if native_rendering_enabled r then render_pending r2
      else render_fallback r2)"
  by (simp add: render_frame_def step_animation_def update_animation_def Let_def)

lemma paths_of_map_cube [simp]:
  "paths_of (map (\<lambda>cube. GlWireCube (f1 cube) (f2 cube) (f3 cube) (f4 cube) (f5 cube)) cs) = []"
  by (induction cs) simp_all

lemma paths_of_branches [simp]:
  "paths_of (render_native win32 r) = [NativeDevice]"
  "paths_of (render_pending r) = [NativePending]"
  "paths_of (render_fallback r) = [Fallback]"
  by (simp_all add: render_native_def render_pending_def render_fallback_def)

lemma paths_of_render_frame:
  "paths_of (fst (snd (render_frame win32 dt r))) =
     (if native_rendering_enabled r \<and> directx_initialized r then [NativeDevice]
      else if native_rendering_enabled r then [NativePending]
      else [Fallback])"
  by (simp add: render_frame_events Let_def)

text \<open>
  Claim C3: when the device initialisation inside \<open>enable_native_rendering\<close> fails,
  \<open>native_rendering_enabled\<close> is false again on return and \<open>directx_initialized\<close> is
  what it was (so false if it was false), \<open>get_renderer_info\<close> is the fallback string, and
  every later \<open>render_frame\<close>, after any number of frames in between, enters the fallback
  branch and no other.
\<close>

theorem enable_native_failure_rolls_back:
  assumes "\<not> fst (initialize_d3d11 win32 res (r\<lparr> native_rendering_enabled := True \<rparr>))"
  shows "\<not> native_rendering_enabled (enable_native_rendering win32 res r) \<and>
         directx_initialized (enable_native_rendering win32 res r) = directx_initialized r \<and>
         get_renderer_info (enable_native_rendering win32 res r) = ''OpenGL Fallback C++ Renderer'' \<and>
         paths_of (fst (snd (render_frame win32 dt
            (render_frames win32 dts (enable_native_rendering win32 res r))))) = [Fallback]"
proof -
  let ?r' = "enable_native_rendering win32 res r"
  obtain ok r2 where eq: "initialize_d3d11 win32 res (r\<lparr> native_rendering_enabled := True \<rparr>) = (ok, r2)"
    by (cases "initialize_d3d11 win32 res (r\<lparr> native_rendering_enabled := True \<rparr>)")
  with assms have nok: "\<not> ok" by simp
  have r': "?r' = r2\<lparr> native_rendering_enabled := False \<rparr>"
    using eq nok by (simp add: enable_native_rendering_def)
  have n: "\<not> native_rendering_enabled ?r'"
    by (simp add: r')
  have "directx_initialized r2 = directx_initialized r"
    using eq by (auto simp add: initialize_d3d11_def split: if_splits)
  then have d: "directx_initialized ?r' = directx_initialized r"
    by (simp add: r')
  have i: "get_renderer_info ?r' = ''OpenGL Fallback C++ Renderer''"
    using n by (simp add: get_renderer_info_def)
  have "\<not> native_rendering_enabled (render_frames win32 dts ?r')"
    using n by (simp add: render_frames_flags)
  then have p: "paths_of (fst (snd (render_frame win32 dt (render_frames win32 dts ?r')))) = [Fallback]"
    by (simp add: paths_of_render_frame)
  from n d i p show ?thesis by blast
qed

theorem enable_native_failure_rolls_back_witness:
  "let r = SimpleRenderer_new 32767 800 600 0;
       res = \<lparr> hr_succeeded = True, out_swap_chain = True, out_device = True, out_context = True \<rparr>;
       r' = enable_native_rendering True res r
   in \<not> fst (initialize_d3d11 True res (r\<lparr> native_rendering_enabled := True \<rparr>)) \<and>
      \<not> native_rendering_enabled r' \<and> \<not> directx_initialized r' \<and>
      get_renderer_info r' = ''OpenGL Fallback C++ Renderer'' \<and>
      paths_of (fst (snd (render_frame True 1 (render_frames True [1, 2] r')))) = [Fallback]"
  using enable_native_failure_rolls_back
    [of True "\<lparr> hr_succeeded = True, out_swap_chain = True, out_device = True, out_context = True \<rparr>"
        "SimpleRenderer_new 32767 800 600 0" 1 "[1, 2]"]
  by (simp add: Let_def initialize_d3d11_def SimpleRenderer_new_def add_cube_def
        enable_native_rendering_def)

text \<open>
  Claim C4: every \<open>render_frame\<close> adds one to the frame counter (in \<open>uint64_t\<close>
  arithmetic, so modulo \<open>2 ^ 64\<close>) and enters exactly one of the three branches: the
  native-device one when both flags are set, the native-pending one when only
  \<open>native_rendering_enabled\<close> is, the fallback one otherwise.
\<close>

theorem render_frame_one_path:
  "fst (render_frame win32 dt r) = True \<and>
   frame_count (snd (snd (render_frame win32 dt r))) = frame_count r + 1 \<and>
   unat (frame_count (snd (snd (render_frame win32 dt r)))) = (unat (frame_count r) + 1) mod 2 ^ 64 \<and>
   length (paths_of (fst (snd (render_frame win32 dt r)))) = 1 \<and>
   (paths_of (fst (snd (render_frame win32 dt r))) = [NativeDevice])
      = (native_rendering_enabled r \<and> directx_initialized r) \<and>
   (paths_of (fst (snd (render_frame win32 dt r))) = [NativePending])
      = (native_rendering_enabled r \<and> \<not> directx_initialized r) \<and>
   (paths_of (fst (snd (render_frame win32 dt r))) = [Fallback])
      = (\<not> native_rendering_enabled r)"
proof -
  have fc: "frame_count (snd (snd (render_frame win32 dt r))) = frame_count r + 1"
    by (simp add: render_frame_def step_animation_def update_animation_def Let_def)
  have u: "unat (frame_count r + 1) = (unat (frame_count r) + 1) mod 2 ^ 64"
    by (simp add: unat_word_ariths)
  have ok: "fst (render_frame win32 dt r) = True"
    by (simp add: render_frame_def Let_def)
  show ?thesis
    by (simp add: ok fc u paths_of_render_frame)
qed

text \<open>
  Claim C5 names the three status strings as "native, animated/ready",
  "native, initializing" and "fallback". \<open>get_renderer_info\<close> returns other texts: with
  both flags set it returns "Native DirectX C++ Renderer (Animated)".
\<close>

theorem renderer_info_spec_strings_counterexample:
  "get_renderer_info ((SimpleRenderer_new 32767 800 600 0)
       \<lparr> native_rendering_enabled := True, directx_initialized := True \<rparr>)
     = ''Native DirectX C++ Renderer (Animated)'' \<and>
   get_renderer_info ((SimpleRenderer_new 32767 800 600 0)
       \<lparr> native_rendering_enabled := True, directx_initialized := True \<rparr>)
     \<noteq> ''native, animated/ready''"
  by (simp add: get_renderer_info_def SimpleRenderer_new_def add_cube_def)

text \<open>
  Claim C5, amended: \<open>get_renderer_info\<close> depends on the pair
  (\<open>native_rendering_enabled\<close>, \<open>directx_initialized\<close>) alone and has three outcomes:
  (true, true) gives "Native DirectX C++ Renderer (Animated)", (true, false) gives
  "Native DirectX C++ Renderer (Initializing...)", and (false, anything) gives
  "OpenGL Fallback C++ Renderer".
\<close>

theorem renderer_info_of_flags:
  "(native_rendering_enabled r \<and> directx_initialized r \<longrightarrow>
      get_renderer_info r = ''Native DirectX C++ Renderer (Animated)'') \<and>
   (native_rendering_enabled r \<and> \<not> directx_initialized r \<longrightarrow>
      get_renderer_info r = ''Native DirectX C++ Renderer (Initializing...)'') \<and>
   (\<not> native_rendering_enabled r \<longrightarrow>
      get_renderer_info r = ''OpenGL Fallback C++ Renderer'') \<and>
   (native_rendering_enabled r = native_rendering_enabled r2 \<and>
    directx_initialized r = directx_initialized r2 \<longrightarrow>
      get_renderer_info r = get_renderer_info r2)"
  by (simp add: get_renderer_info_def)

theorem renderer_info_of_flags_witness:
  "get_renderer_info ((SimpleRenderer_new 32767 800 600 0)
       \<lparr> native_rendering_enabled := True, directx_initialized := True \<rparr>)
     = ''Native DirectX C++ Renderer (Animated)'' \<and>
   get_renderer_info ((SimpleRenderer_new 32767 800 600 0)
       \<lparr> native_rendering_enabled := True \<rparr>)
     = ''Native DirectX C++ Renderer (Initializing...)'' \<and>
   get_renderer_info ((SimpleRenderer_new 32767 800 600 0) \<lparr> directx_initialized := True \<rparr>)
     = ''OpenGL Fallback C++ Renderer'' \<and>
   get_renderer_info (SimpleRenderer_new 32767 800 600 0)
     = get_renderer_info (SimpleRenderer_new 32767 1024 768 7)"
proof -
  let ?r = "SimpleRenderer_new 32767 800 600 0"
  have a: "get_renderer_info (?r\<lparr> native_rendering_enabled := True, directx_initialized := True \<rparr>)
             = ''Native DirectX C++ Renderer (Animated)''"
    using renderer_info_of_flags
            [of "?r\<lparr> native_rendering_enabled := True, directx_initialized := True \<rparr>" ?r]
    by simp
  have b: "get_renderer_info (?r\<lparr> native_rendering_enabled := True \<rparr>)
             = ''Native DirectX C++ Renderer (Initializing...)''"
    using renderer_info_of_flags [of "?r\<lparr> native_rendering_enabled := True \<rparr>" ?r]
    by (simp add: SimpleRenderer_new_def add_cube_def)
  have c: "get_renderer_info (?r\<lparr> directx_initialized := True \<rparr>) = ''OpenGL Fallback C++ Renderer''"
    using renderer_info_of_flags [of "?r\<lparr> directx_initialized := True \<rparr>" ?r]
    by (simp add: SimpleRenderer_new_def add_cube_def)
  have d: "get_renderer_info ?r = get_renderer_info (SimpleRenderer_new 32767 1024 768 7)"
    using renderer_info_of_flags [of ?r "SimpleRenderer_new 32767 1024 768 7",
            THEN conjunct2, THEN conjunct2, THEN conjunct2]
    by (simp add: SimpleRenderer_new_def add_cube_def)
  from a b c d show ?thesis by simp
qed

section \<open>Moving and creating objects\<close>

text \<open>
  Claim C9: \<open>move_object\<close> with an index at or beyond the number of cubes returns the
  renderer unchanged (the source has no other branch: nothing is thrown or signalled);
  with an index in range it sets the x, y and z of that cube and leaves its size, colour,
  speed and phase, every other cube, and every other member as they were.
\<close>

theorem move_object_in_and_out_of_range:
  "(length (cubes r) \<le> i \<longrightarrow> move_object i x y z r = r) \<and>
   (i < length (cubes r) \<longrightarrow>
      length (cubes (move_object i x y z r)) = length (cubes r) \<and>
      cube_x (cubes (move_object i x y z r) ! i) = x \<and>
      cube_y (cubes (move_object i x y z r) ! i) = y \<and>
      cube_z (cubes (move_object i x y z r) ! i) = z \<and>
      cube_size (cubes (move_object i x y z r) ! i) = cube_size (cubes r ! i) \<and>
      cube_color (cubes (move_object i x y z r) ! i) = cube_color (cubes r ! i) \<and>
      rotation_speed (cubes (move_object i x y z r) ! i) = rotation_speed (cubes r ! i) \<and>
      cube_animation_time (cubes (move_object i x y z r) ! i) = cube_animation_time (cubes r ! i) \<and>
      (\<forall>j<length (cubes r). j \<noteq> i \<longrightarrow> cubes (move_object i x y z r) ! j = cubes r ! j) \<and>
      (move_object i x y z r)\<lparr> cubes := cubes r \<rparr> = r)"
  by (simp add: move_object_def)

theorem move_object_in_and_out_of_range_witness:
  "length (cubes (SimpleRenderer_new 32767 800 600 0)) \<le> 1 \<and>
   move_object 1 4 5 6 (SimpleRenderer_new 32767 800 600 0) = SimpleRenderer_new 32767 800 600 0 \<and>
   0 < length (cubes (SimpleRenderer_new 32767 800 600 0)) \<and>
   cube_x (cubes (move_object 0 4 5 6 (SimpleRenderer_new 32767 800 600 0)) ! 0) = 4 \<and>
   cube_y (cubes (move_object 0 4 5 6 (SimpleRenderer_new 32767 800 600 0)) ! 0) = 5 \<and>
   cube_z (cubes (move_object 0 4 5 6 (SimpleRenderer_new 32767 800 600 0)) ! 0) = 6 \<and>
   cube_size (cubes (move_object 0 4 5 6 (SimpleRenderer_new 32767 800 600 0)) ! 0) = 1"
  using move_object_in_and_out_of_range [of "SimpleRenderer_new 32767 800 600 0" 1 4 5 6]
        move_object_in_and_out_of_range [of "SimpleRenderer_new 32767 800 600 0" 0 4 5 6]
  by (simp add: SimpleRenderer_new_def add_cube_def)

text \<open>
  Claim C10: a renderer fresh from the constructor, for any width, height and \<open>rand()\<close>
  value, holds exactly one cube, at (0, 0, 0) with size 1, colour (1, 0, 0) and phase 0;
  its frame counter is 0, neither native flag is set, \<open>get_renderer_info\<close> is the fallback
  string and animation is enabled. The first \<open>add_cube\<close> of a client therefore makes the
  second cube, at index 1.
\<close>

theorem constructed_renderer:
  "length (cubes (SimpleRenderer_new rand_max w h rnd)) = 1 \<and>
   cube_x (cubes (SimpleRenderer_new rand_max w h rnd) ! 0) = 0 \<and>
   cube_y (cubes (SimpleRenderer_new rand_max w h rnd) ! 0) = 0 \<and>
   cube_z (cubes (SimpleRenderer_new rand_max w h rnd) ! 0) = 0 \<and>
   cube_size (cubes (SimpleRenderer_new rand_max w h rnd) ! 0) = 1 \<and>
   cube_color (cubes (SimpleRenderer_new rand_max w h rnd) ! 0) = (1, 0, 0) \<and>
   cube_animation_time (cubes (SimpleRenderer_new rand_max w h rnd) ! 0) = 0 \<and>
   frame_count (SimpleRenderer_new rand_max w h rnd) = 0 \<and>
   get_frame_count (SimpleRenderer_new rand_max w h rnd) = 0 \<and>
   \<not> native_rendering_enabled (SimpleRenderer_new rand_max w h rnd) \<and>
   \<not> directx_initialized (SimpleRenderer_new rand_max w h rnd) \<and>
   get_renderer_info (SimpleRenderer_new rand_max w h rnd) = ''OpenGL Fallback C++ Renderer'' \<and>
   animation_enabled (SimpleRenderer_new rand_max w h rnd) \<and>
   width (SimpleRenderer_new rand_max w h rnd) = w \<and>
   height (SimpleRenderer_new rand_max w h rnd) = h \<and>
   length (cubes (add_cube rand_max x y z sz rnd2 (SimpleRenderer_new rand_max w h rnd))) = 2 \<and>
   cubes (add_cube rand_max x y z sz rnd2 (SimpleRenderer_new rand_max w h rnd)) ! 0
     = cubes (SimpleRenderer_new rand_max w h rnd) ! 0 \<and>
   cube_x (cubes (add_cube rand_max x y z sz rnd2 (SimpleRenderer_new rand_max w h rnd)) ! 1) = x \<and>
   cube_y (cubes (add_cube rand_max x y z sz rnd2 (SimpleRenderer_new rand_max w h rnd)) ! 1) = y \<and>
   cube_z (cubes (add_cube rand_max x y z sz rnd2 (SimpleRenderer_new rand_max w h rnd)) ! 1) = z \<and>
   cube_size (cubes (add_cube rand_max x y z sz rnd2 (SimpleRenderer_new rand_max w h rnd)) ! 1) = sz"
  by (simp add: SimpleRenderer_new_def add_cube_def get_frame_count_def get_renderer_info_def)

section \<open>The camera orbit\<close>

subsection \<open>A lower bound of \<open>pi\<close> above the constant 3.14159 of the source\<close>

lemma arctan_series_bounds:
  fixes x :: real
  assumes x: "0 \<le> x" "x \<le> 1"
  shows "(\<Sum>i<2*n. (-1)^i * (1 / real (i * 2 + 1) * x ^ (i * 2 + 1))) \<le> arctan x"
    and "arctan x \<le> (\<Sum>i<2*n+1. (-1)^i * (1 / real (i * 2 + 1) * x ^ (i * 2 + 1)))"
proof -
  let ?a = "\<lambda>n::nat. 1 / real (n * 2 + 1) * x ^ (n * 2 + 1)"
  have z: "?a \<longlonglongrightarrow> 0"
    by (rule zeroseq_arctan_series) (use x in simp)
  have p: "\<And>k. 0 \<le> ?a k" using x by simp
  have m: "\<And>k. ?a (Suc k) \<le> ?a k"
  proof -
    fix k :: nat
    have "x ^ (Suc k * 2 + 1) \<le> x ^ (k * 2 + 1)"
      by (rule power_decreasing) (use x in simp_all)
    moreover have "1 / real (Suc k * 2 + 1) \<le> 1 / real (k * 2 + 1)"
      by (simp add: field_simps)
    ultimately show "?a (Suc k) \<le> ?a k"
      by (intro mult_mono) (use x in simp_all)
  qed
  have s: "(\<Sum>i. (-1)^i * ?a i) = arctan x"
    by (rule arctan_series [symmetric]) (use x in simp)
  show "(\<Sum>i<2*n. (-1)^i * ?a i) \<le> arctan x"
    using summable_Leibniz'(2) [where a = ?a, OF z p m, of n] by (simp only: s)
  show "arctan x \<le> (\<Sum>i<2*n+1. (-1)^i * ?a i)"
    using summable_Leibniz'(4) [where a = ?a, OF z p m, of n] by (simp only: s)
qed

lemma arctan_fifth_lower: "323852 / 1640625 \<le> arctan (1/5::real)"
  using arctan_series_bounds(1) [of "1/5" 2]
  by (simp add: lessThan_nat_numeral lessThan_Suc power_divide)

lemma arctan_239_upper: "arctan (1/239::real) \<le> 1/239"
  using arctan_series_bounds(2) [of "1/239" 0] by simp

lemma pi_lower: "(3.14159::real) < pi"
proof -
  have "pi = 16 * arctan (1/5) - 4 * arctan (1/239)"
    using machin by simp
  with arctan_fifth_lower arctan_239_upper show ?thesis by simp
qed

lemma camera_orbit_angle_update:
  "camera_orbit_angle (update_animation dt r) =
     (if camera_orbit_angle r + dt * 0.5 > 2 * 3.14159
      then camera_orbit_angle r + dt * 0.5 - 2 * 3.14159
      else camera_orbit_angle r + dt * 0.5)"
  by (simp add: update_animation_def Let_def)

text \<open>
  Claim C8 says that after every update the angle lies in [0, \<open>2 * pi\<close>). The source
  subtracts \<open>2 * 3.14159\<close> once, so a large clock difference leaves the angle beyond a
  full turn: from angle 0 a step of 100 seconds gives \<open>50 - 2 * 3.14159\<close>.
\<close>

theorem orbit_angle_single_wrap_counterexample:
  "camera_orbit_angle (SimpleRenderer_new 32767 800 600 0) = 0 \<and>
   camera_orbit_angle (update_animation 100 (SimpleRenderer_new 32767 800 600 0)) = 50 - 2 * 3.14159 \<and>
   \<not> camera_orbit_angle (update_animation 100 (SimpleRenderer_new 32767 800 600 0)) < 2 * pi"
proof -
  have "2 * pi < 8" using pi_less_4 by simp
  then show ?thesis
    by (simp add: camera_orbit_angle_update SimpleRenderer_new_def add_cube_def)
qed

text \<open>
  Claim C8, amended: an update advances the angle by \<open>delta_time * 0.5\<close> and, if the sum
  exceeds \<open>2 * 3.14159\<close>, subtracts \<open>2 * 3.14159\<close> once. When the angle before the update
  lies in [0, \<open>2 * pi\<close>) and the advance \<open>delta_time * 0.5\<close> lies in [0, 2 * 3.14159], the
  angle after the update lies in [0, \<open>2 * pi\<close>).
\<close>

theorem orbit_angle_single_wrap:
  assumes "0 \<le> camera_orbit_angle r" and "camera_orbit_angle r < 2 * pi"
      and "0 \<le> dt * 0.5" and "dt * 0.5 \<le> 2 * 3.14159"
  shows "camera_orbit_angle (update_animation dt r) =
           (if camera_orbit_angle r + dt * 0.5 > 2 * 3.14159
            then camera_orbit_angle r + dt * 0.5 - 2 * 3.14159
            else camera_orbit_angle r + dt * 0.5) \<and>
         0 \<le> camera_orbit_angle (update_animation dt r) \<and>
         camera_orbit_angle (update_animation dt r) < 2 * pi"
proof -
  let ?a = "camera_orbit_angle r + dt * 0.5"
  have eq: "camera_orbit_angle (update_animation dt r) =
           (if ?a > 2 * 3.14159 then ?a - 2 * 3.14159 else ?a)"
    by (rule camera_orbit_angle_update)
  have lo: "0 \<le> (if ?a > 2 * 3.14159 then ?a - 2 * 3.14159 else ?a)"
    using assms(1,3) by simp
  have hi: "(if ?a > 2 * 3.14159 then ?a - 2 * 3.14159 else ?a) < 2 * pi"
  proof (cases "?a > 2 * 3.14159")
    case True
    then show ?thesis using assms(2,4) by simp
  next
    case False
    then have "?a \<le> 2 * 3.14159" by simp
    also have "(2 * 3.14159 :: real) < 2 * pi" using pi_lower by simp
    finally show ?thesis using False by simp
  qed
  from eq lo hi show ?thesis by simp
qed

theorem orbit_angle_single_wrap_witness:
  "(0::real) \<le> camera_orbit_angle ((SimpleRenderer_new 32767 800 600 0)\<lparr> camera_orbit_angle := 6 \<rparr>) \<and>
   camera_orbit_angle ((SimpleRenderer_new 32767 800 600 0)\<lparr> camera_orbit_angle := 6 \<rparr>) < 2 * pi \<and>
   (0::real) \<le> 1 * 0.5 \<and> (1::real) * 0.5 \<le> 2 * 3.14159 \<and>
   camera_orbit_angle (update_animation 1
      ((SimpleRenderer_new 32767 800 600 0)\<lparr> camera_orbit_angle := 6 \<rparr>)) = 6.5 - 2 * 3.14159 \<and>
   camera_orbit_angle (update_animation 1
      ((SimpleRenderer_new 32767 800 600 0)\<lparr> camera_orbit_angle := 6 \<rparr>)) < 2 * pi"
proof -
  let ?r = "(SimpleRenderer_new 32767 800 600 0)\<lparr> camera_orbit_angle := 6 \<rparr>"
  have a: "0 \<le> camera_orbit_angle ?r" by simp
  have b: "camera_orbit_angle ?r < 2 * pi" using pi_lower by simp
  have c: "(0::real) \<le> 1 * 0.5" and d: "(1::real) * 0.5 \<le> 2 * 3.14159" by simp_all
  from orbit_angle_single_wrap [OF a b c d] a b c d show ?thesis by simp
qed

section \<open>Phase and colour in float32\<close>

subsection \<open>Rounding a real to an integer, ties to even\<close>

lemma rne_cases: "rne t = \<lfloor>t\<rfloor> \<or> rne t = \<lfloor>t\<rfloor> + 1"
  unfolding rne_def Let_def by simp

lemma rne_low: "t - of_int \<lfloor>t\<rfloor> < 1/2 \<Longrightarrow> rne t = \<lfloor>t\<rfloor>"
  unfolding rne_def Let_def by simp

lemma rne_high: "1/2 < t - of_int \<lfloor>t\<rfloor> \<Longrightarrow> rne t = \<lfloor>t\<rfloor> + 1"
  unfolding rne_def Let_def by simp

lemma rne_lower: "t - 1/2 \<le> of_int (rne t)"
proof -
  have fl: "of_int \<lfloor>t\<rfloor> \<le> t" "t < of_int \<lfloor>t\<rfloor> + 1" by linarith+
  consider "t - of_int \<lfloor>t\<rfloor> < 1/2" | "1/2 < t - of_int \<lfloor>t\<rfloor>" | "t - of_int \<lfloor>t\<rfloor> = 1/2"
    by linarith
  then show ?thesis
  proof cases
    case 1
    then have "rne t = \<lfloor>t\<rfloor>" by (rule rne_low)
    with 1 show ?thesis by linarith
  next
    case 2
    then have "rne t = \<lfloor>t\<rfloor> + 1" by (rule rne_high)
    then have "(of_int (rne t) :: real) = of_int \<lfloor>t\<rfloor> + 1" by simp
    with fl show ?thesis by linarith
  next
    case 3
    have "(of_int \<lfloor>t\<rfloor> :: real) \<le> of_int (rne t)"
      using rne_cases [of t] by auto
    with 3 show ?thesis by linarith
  qed
qed

lemma rne_upper: "of_int (rne t) \<le> t + 1/2"
proof -
  have fl: "of_int \<lfloor>t\<rfloor> \<le> t" "t < of_int \<lfloor>t\<rfloor> + 1" by linarith+
  consider "t - of_int \<lfloor>t\<rfloor> < 1/2" | "1/2 < t - of_int \<lfloor>t\<rfloor>" | "t - of_int \<lfloor>t\<rfloor> = 1/2"
    by linarith
  then show ?thesis
  proof cases
    case 1
    then have "rne t = \<lfloor>t\<rfloor>" by (rule rne_low)
    with fl show ?thesis by linarith
  next
    case 2
    then have "rne t = \<lfloor>t\<rfloor> + 1" by (rule rne_high)
    then have "(of_int (rne t) :: real) = of_int \<lfloor>t\<rfloor> + 1" by simp
    with 2 show ?thesis by linarith
  next
    case 3
    have "(of_int (rne t) :: real) \<le> of_int \<lfloor>t\<rfloor> + 1"
      using rne_cases [of t] by auto
    with 3 show ?thesis by linarith
  qed
qed

lemma rne_of_int [simp]: "rne (of_int n) = n"
  by (simp add: rne_def)

lemma rne_ge_int: "of_int n \<le> t \<Longrightarrow> n \<le> rne t"
proof -
  assume "of_int n \<le> t"
  then have "n \<le> \<lfloor>t\<rfloor>" by (simp add: le_floor_iff)
  with rne_cases [of t] show ?thesis by auto
qed

lemma rne_le_int: "t \<le> of_int n \<Longrightarrow> rne t \<le> n"
proof (cases "t = of_int n")
  case True then show ?thesis by simp
next
  case False
  assume "t \<le> of_int n"
  with False have "t < of_int n" by simp
  then have "\<lfloor>t\<rfloor> < n" by (simp add: floor_less_iff)
  with rne_cases [of t] show ?thesis by auto
qed

lemma rne_mono: "s \<le> t \<Longrightarrow> rne s \<le> rne t"
proof (cases "\<lfloor>s\<rfloor> = \<lfloor>t\<rfloor>")
  case False
  assume "s \<le> t"
  then have "\<lfloor>s\<rfloor> \<le> \<lfloor>t\<rfloor>" by (rule floor_mono)
  with False have "\<lfloor>s\<rfloor> + 1 \<le> \<lfloor>t\<rfloor>" by simp
  with rne_cases [of s] rne_cases [of t] show ?thesis by auto
next
  case True
  assume st: "s \<le> t"
  let ?n = "\<lfloor>t\<rfloor>"
  show ?thesis
  proof (cases "s - of_int ?n < 1/2")
    case sl: True
    then have "rne s = ?n" using True by (simp add: rne_low)
    with rne_cases [of t] show ?thesis by auto
  next
    case snl: False
    show ?thesis
    proof (cases "1/2 < t - of_int ?n")
      case True
      then have "rne t = ?n + 1" by (simp add: rne_high)
      with rne_cases [of s] \<open>\<lfloor>s\<rfloor> = \<lfloor>t\<rfloor>\<close> show ?thesis by auto
    next
      case False
      with snl st have "s = t" by linarith
      then show ?thesis by simp
    qed
  qed
qed

subsection \<open>Exponent and spacing\<close>

lemma ulp_pos [simp]: "0 < ulp x"
  by (simp add: ulp_def)

lemma expo_ge: "- 126 \<le> expo x"
  by (simp add: expo_def)

lemma abs_less_next_binade: "x \<noteq> 0 \<Longrightarrow> \<bar>x\<bar> < 2 powr of_int (expo x + 1)"
proof -
  assume "x \<noteq> 0"
  then have pos: "0 < \<bar>x\<bar>" by simp
  have "log 2 \<bar>x\<bar> < of_int (\<lfloor>log 2 \<bar>x\<bar>\<rfloor> + 1)" by linarith
  also have "\<dots> \<le> of_int (expo x + 1)" by (simp add: expo_def)
  finally have "log 2 \<bar>x\<bar> < of_int (expo x + 1)" .
  with pos show ?thesis by (simp add: log_less_iff)
qed

lemma binade_le_abs: "x \<noteq> 0 \<Longrightarrow> - 126 < expo x \<Longrightarrow> 2 powr of_int (expo x) \<le> \<bar>x\<bar>"
proof -
  assume "x \<noteq> 0" and e: "- 126 < expo x"
  then have pos: "0 < \<bar>x\<bar>" by simp
  from e have "expo x = \<lfloor>log 2 \<bar>x\<bar>\<rfloor>" by (simp add: expo_def max_def split: if_splits)
  then have "of_int (expo x) \<le> log 2 \<bar>x\<bar>" by simp
  with pos show ?thesis by (simp add: le_log_iff)
qed

lemma expo_mono: "x \<noteq> 0 \<Longrightarrow> \<bar>x\<bar> \<le> \<bar>y\<bar> \<Longrightarrow> expo x \<le> expo y"
proof -
  assume "x \<noteq> 0" and le: "\<bar>x\<bar> \<le> \<bar>y\<bar>"
  then have "0 < \<bar>x\<bar>" by simp
  with le have "log 2 \<bar>x\<bar> \<le> log 2 \<bar>y\<bar>" by simp
  then have "\<lfloor>log 2 \<bar>x\<bar>\<rfloor> \<le> \<lfloor>log 2 \<bar>y\<bar>\<rfloor>" by (rule floor_mono)
  then show ?thesis by (simp add: expo_def)
qed

lemma binade_over_ulp:
  "2 powr of_int (expo x) / ulp x = 8388608"
  "2 powr of_int (expo x + 1) / ulp x = 16777216"
proof -
  have "2 powr of_int (expo x) / ulp x = 2 powr (of_int (expo x) - of_int (expo x - 23))"
    unfolding ulp_def by (simp only: powr_diff)
  also have "\<dots> = 2 powr 23" by simp
  finally show "2 powr of_int (expo x) / ulp x = 8388608" by simp
  have "2 powr of_int (expo x + 1) / ulp x = 2 powr (of_int (expo x + 1) - of_int (expo x - 23))"
    unfolding ulp_def by (simp only: powr_diff)
  also have "\<dots> = 2 powr 24" by simp
  finally show "2 powr of_int (expo x + 1) / ulp x = 16777216" by simp
qed

lemma binade_as_ulp:
  "2 powr of_int (expo x) = 8388608 * ulp x"
  "2 powr of_int (expo x + 1) = 16777216 * ulp x"
  using binade_over_ulp [of x] ulp_pos [of x] by (simp_all add: field_simps)

lemma ulp_nonneg: "0 \<le> ulp x"
  using ulp_pos [of x] by linarith

lemma abs_less_top: "x \<noteq> 0 \<Longrightarrow> \<bar>x\<bar> < 16777216 * ulp x"
  using abs_less_next_binade [of x] binade_as_ulp(2) [of x] by linarith

lemma bottom_le_abs: "x \<noteq> 0 \<Longrightarrow> - 126 < expo x \<Longrightarrow> 8388608 * ulp x \<le> \<bar>x\<bar>"
  using binade_le_abs [of x] binade_as_ulp(1) [of x] by linarith

lemma round_nearest_nz: "x \<noteq> 0 \<Longrightarrow> round_nearest x = of_int (rne (x / ulp x)) * ulp x"
  by (simp add: round_nearest_def)

lemma scaled_le: "x \<le> c * ulp x \<Longrightarrow> x / ulp x \<le> c"
  using ulp_pos [of x] by (simp add: field_simps)

lemma scaled_ge: "c * ulp x \<le> x \<Longrightarrow> c \<le> x / ulp x"
  using ulp_pos [of x] by (simp add: field_simps)

lemma round_nearest_le_int:
  assumes "x \<noteq> 0" "x \<le> of_int n * ulp x" shows "round_nearest x \<le> of_int n * ulp x"
proof -
  have "x / ulp x \<le> of_int n" using assms(2) by (rule scaled_le)
  then have "rne (x / ulp x) \<le> n" by (rule rne_le_int)
  then have "(of_int (rne (x / ulp x)) :: real) \<le> of_int n" by simp
  then have "of_int (rne (x / ulp x)) * ulp x \<le> of_int n * ulp x"
    by (rule mult_right_mono) (rule ulp_nonneg)
  then show ?thesis by (simp only: round_nearest_nz [OF assms(1)])
qed

lemma round_nearest_ge_int:
  assumes "x \<noteq> 0" "of_int n * ulp x \<le> x" shows "of_int n * ulp x \<le> round_nearest x"
proof -
  have "of_int n \<le> x / ulp x" using assms(2) by (rule scaled_ge)
  then have "n \<le> rne (x / ulp x)" by (rule rne_ge_int)
  then have "(of_int n :: real) \<le> of_int (rne (x / ulp x))" by simp
  then have "of_int n * ulp x \<le> of_int (rne (x / ulp x)) * ulp x"
    by (rule mult_right_mono) (rule ulp_nonneg)
  then show ?thesis by (simp only: round_nearest_nz [OF assms(1)])
qed

lemma round_nearest_pos_upper:
  assumes "0 < x" shows "round_nearest x \<le> 16777216 * ulp x"
  using round_nearest_le_int [of x 16777216] abs_less_top [of x] assms by simp

lemma round_nearest_pos_lower:
  assumes "0 < x" "- 126 < expo x" shows "8388608 * ulp x \<le> round_nearest x"
  using round_nearest_ge_int [of x 8388608] bottom_le_abs [of x] assms by simp

lemma round_nearest_neg_lower:
  assumes "x < 0" shows "- (16777216 * ulp x) \<le> round_nearest x"
  using round_nearest_ge_int [of x "- 16777216"] abs_less_top [of x] assms by simp

lemma round_nearest_neg_upper:
  assumes "x < 0" "- 126 < expo x" shows "round_nearest x \<le> - (8388608 * ulp x)"
  using round_nearest_le_int [of x "- 8388608"] bottom_le_abs [of x] assms by simp

lemma round_nearest_nonneg: "0 \<le> x \<Longrightarrow> 0 \<le> round_nearest x"
proof (cases "x = 0")
  case True then show ?thesis by (simp add: round_nearest_def)
next
  case False
  assume "0 \<le> x"
  with round_nearest_ge_int [of x 0] False show ?thesis by simp
qed

lemma round_nearest_nonpos: "x \<le> 0 \<Longrightarrow> round_nearest x \<le> 0"
proof (cases "x = 0")
  case True then show ?thesis by (simp add: round_nearest_def)
next
  case False
  assume "x \<le> 0"
  with round_nearest_le_int [of x 0] False show ?thesis by simp
qed

subsection \<open>Rounding to float32 is monotone\<close>

lemma ulp_eq: "expo x = expo y \<Longrightarrow> ulp x = ulp y"
  by (simp add: ulp_def)

lemma ulp_double: "expo x < expo y \<Longrightarrow> 2 * ulp x \<le> ulp y"
proof -
  assume "expo x < expo y"
  then have "expo x - 23 + 1 \<le> expo y - 23" by simp
  then have "(of_int (expo x - 23 + 1) :: real) \<le> of_int (expo y - 23)" by (simp only: of_int_le_iff)
  then have a: "(2::real) powr of_int (expo x - 23 + 1) \<le> 2 powr of_int (expo y - 23)"
    by (rule powr_mono) simp
  have b: "(2::real) powr of_int (expo x - 23 + 1) = 2 powr of_int (expo x - 23) * 2 powr 1"
    by (simp only: of_int_add of_int_1 powr_add)
  have c: "(2::real) powr 1 = 2" by simp
  have "(2::real) powr of_int (expo x - 23 + 1) = 2 * 2 powr of_int (expo x - 23)"
    unfolding b c by (rule mult.commute)
  with a show ?thesis unfolding ulp_def by linarith
qed

lemma round_nearest_same_binade:
  assumes "x \<noteq> 0" "y \<noteq> 0" "expo x = expo y" "x \<le> y"
  shows "round_nearest x \<le> round_nearest y"
proof -
  have u: "ulp x = ulp y" using assms(3) by (rule ulp_eq)
  have "x / ulp y \<le> y / ulp y"
    using assms(4) by (rule divide_right_mono) (rule ulp_nonneg)
  then have "rne (x / ulp y) \<le> rne (y / ulp y)" by (rule rne_mono)
  then have "(of_int (rne (x / ulp y)) :: real) \<le> of_int (rne (y / ulp y))" by simp
  then have "of_int (rne (x / ulp y)) * ulp y \<le> of_int (rne (y / ulp y)) * ulp y"
    by (rule mult_right_mono) (rule ulp_nonneg)
  then show ?thesis
    by (simp only: round_nearest_nz [OF assms(1)] round_nearest_nz [OF assms(2)] u)
qed

lemma round_nearest_mono: "x \<le> y \<Longrightarrow> round_nearest x \<le> round_nearest y"
proof -
  assume xy: "x \<le> y"
  consider "x \<le> 0 \<and> 0 \<le> y" | "0 < x" | "y < 0" by linarith
  then show ?thesis
  proof cases
    case 1
    then have "round_nearest x \<le> 0" "0 \<le> round_nearest y"
      by (simp_all add: round_nearest_nonpos round_nearest_nonneg)
    then show ?thesis by linarith
  next
    case 2
    with xy have y: "0 < y" by linarith
    have e: "expo x \<le> expo y" using 2 xy y by (intro expo_mono) simp_all
    show ?thesis
    proof (cases "expo x = expo y")
      case True
      with 2 y xy show ?thesis by (intro round_nearest_same_binade) simp_all
    next
      case False
      with e have lt: "expo x < expo y" by simp
      then have "- 126 < expo y" using expo_ge [of x] by linarith
      then have "8388608 * ulp y \<le> round_nearest y"
        using y by (intro round_nearest_pos_lower)
      moreover have "round_nearest x \<le> 16777216 * ulp x"
        using 2 by (rule round_nearest_pos_upper)
      moreover have "2 * ulp x \<le> ulp y" using lt by (rule ulp_double)
      ultimately show ?thesis by linarith
    qed
  next
    case 3
    with xy have x: "x < 0" by linarith
    have e: "expo y \<le> expo x" using 3 xy x by (intro expo_mono) simp_all
    show ?thesis
    proof (cases "expo x = expo y")
      case True
      with 3 x xy show ?thesis by (intro round_nearest_same_binade) simp_all
    next
      case False
      with e have lt: "expo y < expo x" by simp
      then have "- 126 < expo x" using expo_ge [of y] by linarith
      then have "round_nearest x \<le> - (8388608 * ulp x)"
        using x by (intro round_nearest_neg_upper)
      moreover have "- (16777216 * ulp y) \<le> round_nearest y"
        using 3 by (rule round_nearest_neg_lower)
      moreover have "2 * ulp y \<le> ulp x" using lt by (rule ulp_double)
      ultimately show ?thesis by linarith
    qed
  qed
qed

subsection \<open>Rounding of particular numbers\<close>

lemma expo_eqI:
  assumes "2 powr of_int e \<le> \<bar>x\<bar>" "\<bar>x\<bar> < 2 powr of_int (e + 1)" "- 126 \<le> e"
  shows "expo x = e"
proof -
  have "0 < (2::real) powr of_int e" by simp
  with assms(1) have pos: "0 < \<bar>x\<bar>" by linarith
  have "\<lfloor>log 2 \<bar>x\<bar>\<rfloor> = e"
    using assms(1,2) pos by (simp add: floor_log_eq_powr_iff)
  with assms(3) show ?thesis by (simp add: expo_def)
qed

lemma round_nearest_scaled:
  assumes "- 126 \<le> e" "8388608 \<le> \<bar>t\<bar>" "\<bar>t\<bar> < 16777216"
  shows "round_nearest (t * 2 powr of_int (e - 23)) = of_int (rne t) * 2 powr of_int (e - 23)"
proof -
  let ?u = "(2::real) powr of_int (e - 23)"
  let ?x = "t * ?u"
  have u: "0 < ?u" by simp
  have b1: "2 powr of_int e = 8388608 * ?u"
  proof -
    have "(2::real) powr of_int e = 2 powr (of_int (e - 23) + 23)" by simp
    also have "\<dots> = ?u * 2 powr 23" by (simp only: powr_add)
    finally show ?thesis by simp
  qed
  have b2: "2 powr of_int (e + 1) = 16777216 * ?u"
  proof -
    have "(2::real) powr of_int (e + 1) = 2 powr (of_int (e - 23) + 24)" by (simp add: algebra_simps)
    also have "\<dots> = ?u * 2 powr 24" by (simp only: powr_add)
    finally show ?thesis by simp
  qed
  have ax: "\<bar>?x\<bar> = \<bar>t\<bar> * ?u" by (simp add: abs_mult)
  have lo: "2 powr of_int e \<le> \<bar>?x\<bar>"
    unfolding ax b1 using assms(2) u by (simp add: mult_right_mono)
  have hi: "\<bar>?x\<bar> < 2 powr of_int (e + 1)"
    unfolding ax b2 using assms(3) u by (simp add: mult_strict_right_mono)
  have e: "expo ?x = e" using lo hi assms(1) by (rule expo_eqI)
  have ul: "ulp ?x = ?u" by (simp only: ulp_def e)
  have nz: "?x \<noteq> 0" using assms(2) u by auto
  have "?x / ?u = t" using u by simp
  then show ?thesis
    by (simp only: round_nearest_nz [OF nz] ul)
qed

lemma rne_numeral [simp]: "rne (numeral n) = numeral n"
  using rne_of_int [of "numeral n"] by simp

lemma rne_neg_numeral [simp]: "rne (- numeral n) = - numeral n"
  using rne_of_int [of "- numeral n"] by simp

lemma round_nearest_zero [simp]: "round_nearest 0 = 0"
  by (simp add: round_nearest_def)

lemma round_nearest_one [simp]: "round_nearest 1 = 1"
  using round_nearest_scaled [of 0 8388608] by (simp add: powr_minus)

lemma round_nearest_minus_one [simp]: "round_nearest (- 1) = - 1"
  using round_nearest_scaled [of 0 "- 8388608"] by (simp add: powr_minus)

lemma round_nearest_half [simp]: "round_nearest (1/2) = 1/2"
  using round_nearest_scaled [of "- 1" 8388608] by (simp add: powr_minus)

lemma round_nearest_minus_half [simp]: "round_nearest (- (1/2)) = - (1/2)"
  using round_nearest_scaled [of "- 1" "- 8388608"] by (simp add: powr_minus)

lemma round_nearest_two [simp]: "round_nearest 2 = 2"
  using round_nearest_scaled [of 1 8388608] by (simp add: powr_minus)

lemma round_nearest_three [simp]: "round_nearest 3 = 3"
  using round_nearest_scaled [of 1 12582912] by (simp add: powr_minus)

lemma round_nearest_2_24: "round_nearest 16777216 = 16777216"
  using round_nearest_scaled [of 24 8388608] by simp

lemma rne_tie_even: "rne (16777217 / 2) = 8388608"
  by (simp add: rne_def)

lemma round_nearest_absorbs: "round_nearest 16777217 = 16777216"
  using round_nearest_scaled [of 24 "16777217 / 2"] by (simp add: rne_tie_even)

lemma round_nearest_2_127: "round_nearest (2 ^ 127) = 2 ^ 127"
  using round_nearest_scaled [of 127 8388608] by simp

lemma round_nearest_2_128: "round_nearest (2 ^ 128) = 2 ^ 128"
  using round_nearest_scaled [of 128 8388608] by simp

lemma round_nearest_32767: "round_nearest 32767 = 32767"
  using round_nearest_scaled [of 14 "32767 * 512"] by (simp add: powr_minus)

subsection \<open>Rounding is idempotent\<close>

lemma expo_subnormal:
  assumes "x \<noteq> 0" "\<bar>x\<bar> < 2 powr of_int (- 126)" shows "expo x = - 126"
proof -
  have pos: "0 < \<bar>x\<bar>" using assms(1) by simp
  have "log 2 \<bar>x\<bar> < of_int (- 126)"
    using assms(2) pos by (simp only: log_less_iff [of 2] one_less_numeral_iff semiring_norm)
  then have "\<lfloor>log 2 \<bar>x\<bar>\<rfloor> < - 126" by (simp only: floor_less_iff)
  then show ?thesis by (simp add: expo_def)
qed

lemma round_nearest_subnormal:
  assumes "\<bar>n\<bar> < 8388608"
  shows "round_nearest (of_int n * 2 powr of_int (- 126 - 23)) = of_int n * 2 powr of_int (- 126 - 23)"
proof (cases "n = 0")
  case True then show ?thesis by simp
next
  case False
  let ?u = "(2::real) powr of_int (- 126 - 23)"
  let ?x = "of_int n * ?u"
  have u: "0 < ?u" by simp
  have nz: "?x \<noteq> 0" using False u by simp
  have b: "2 powr of_int (- 126) = 8388608 * ?u"
  proof -
    have "(2::real) powr of_int (- 126) = 2 powr (of_int (- 126 - 23) + 23)" by simp
    also have "\<dots> = ?u * 2 powr 23" by (simp only: powr_add)
    finally show ?thesis by simp
  qed
  have "\<bar>of_int n :: real\<bar> < 8388608" using assms by linarith
  then have "\<bar>of_int n :: real\<bar> * ?u < 8388608 * ?u"
    using u by (simp only: mult_strict_right_mono)
  then have "\<bar>?x\<bar> < 2 powr of_int (- 126)"
    by (simp only: b abs_mult abs_of_pos [OF u])
  with nz have e: "expo ?x = - 126" by (rule expo_subnormal)
  have ul: "ulp ?x = ?u" by (simp only: ulp_def e)
  have "?x / ?u = of_int n" using u by simp
  then show ?thesis
    by (simp only: round_nearest_nz [OF nz] ul rne_of_int)
qed

lemma round_nearest_grid:
  assumes e: "- 126 \<le> e" and n: "\<bar>n\<bar> \<le> 16777216" and low: "e = - 126 \<or> 8388608 \<le> \<bar>n\<bar>"
  shows "round_nearest (of_int n * 2 powr of_int (e - 23)) = of_int n * 2 powr of_int (e - 23)"
proof -
  consider "\<bar>n\<bar> = 16777216" | "8388608 \<le> \<bar>n\<bar> \<and> \<bar>n\<bar> < 16777216" | "\<bar>n\<bar> < 8388608"
    using n by linarith
  then show ?thesis
  proof cases
    case 1
    have two: "(2::real) powr of_int (e + 1 - 23) = 2 * 2 powr of_int (e - 23)"
    proof -
      have "(2::real) powr of_int (e + 1 - 23) = 2 powr (of_int (e - 23) + 1)"
        by (simp add: algebra_simps)
      also have "\<dots> = 2 powr of_int (e - 23) * 2 powr 1" by (simp only: powr_add)
      finally show ?thesis by simp
    qed
    from 1 have "n = 16777216 \<or> n = - 16777216" by linarith
    then show ?thesis
    proof
      assume nn: "n = 16777216"
      have eq: "(of_int n :: real) * 2 powr of_int (e - 23) = 8388608 * 2 powr of_int (e + 1 - 23)"
        unfolding nn two by simp
      have "round_nearest (8388608 * 2 powr of_int (e + 1 - 23)) = of_int (rne 8388608) * 2 powr of_int (e + 1 - 23)"
        using e by (intro round_nearest_scaled) simp_all
      then show ?thesis by (simp only: eq rne_numeral of_int_numeral)
    next
      assume nn: "n = - 16777216"
      have eq: "(of_int n :: real) * 2 powr of_int (e - 23) = - 8388608 * 2 powr of_int (e + 1 - 23)"
        unfolding nn two by simp
      have "round_nearest (- 8388608 * 2 powr of_int (e + 1 - 23)) = of_int (rne (- 8388608)) * 2 powr of_int (e + 1 - 23)"
        using e by (intro round_nearest_scaled) simp_all
      then show ?thesis by (simp only: eq rne_neg_numeral of_int_minus of_int_numeral)
    qed
  next
    case 2
    then have "8388608 \<le> \<bar>of_int n :: real\<bar>" "\<bar>of_int n :: real\<bar> < 16777216" by linarith+
    with e have "round_nearest (of_int n * 2 powr of_int (e - 23)) = of_int (rne (of_int n)) * 2 powr of_int (e - 23)"
      by (intro round_nearest_scaled)
    then show ?thesis by (simp only: rne_of_int)
  next
    case 3
    with low have "e = - 126" by linarith
    with 3 show ?thesis by (simp only: round_nearest_subnormal)
  qed
qed

lemma round_nearest_on_grid:
  assumes "x \<noteq> 0"
  shows "\<bar>rne (x / ulp x)\<bar> \<le> 16777216 \<and> (expo x = - 126 \<or> 8388608 \<le> \<bar>rne (x / ulp x)\<bar>)"
proof -
  let ?n = "rne (x / ulp x)"
  have top: "\<bar>x\<bar> < 16777216 * ulp x" using assms by (rule abs_less_top)
  have "x / ulp x \<le> of_int 16777216" using top by (intro scaled_le) simp
  then have up: "?n \<le> 16777216" by (rule rne_le_int)
  have "of_int (- 16777216) \<le> x / ulp x" using top by (intro scaled_ge) simp
  then have dn: "- 16777216 \<le> ?n" by (rule rne_ge_int)
  have big: "8388608 \<le> \<bar>?n\<bar>" if ne: "expo x \<noteq> - 126"
  proof -
    from ne expo_ge [of x] have g: "- 126 < expo x" by linarith
    then have b: "8388608 * ulp x \<le> \<bar>x\<bar>" using assms by (intro bottom_le_abs)
    show ?thesis
    proof (cases "0 < x")
      case True
      with b have "of_int 8388608 \<le> x / ulp x" by (intro scaled_ge) simp
      then have "8388608 \<le> ?n" by (rule rne_ge_int)
      then show ?thesis by linarith
    next
      case False
      with b assms have "x / ulp x \<le> of_int (- 8388608)" by (intro scaled_le) simp
      then have "?n \<le> - 8388608" by (rule rne_le_int)
      then show ?thesis by linarith
    qed
  qed
  from up dn have "\<bar>?n\<bar> \<le> 16777216" by linarith
  moreover from big have "expo x = - 126 \<or> 8388608 \<le> \<bar>?n\<bar>" by blast
  ultimately show ?thesis by blast
qed

lemma round_nearest_idem: "round_nearest (round_nearest x) = round_nearest x"
proof (cases "x = 0")
  case True then show ?thesis by simp
next
  case False
  have g: "\<bar>rne (x / ulp x)\<bar> \<le> 16777216 \<and> (expo x = - 126 \<or> 8388608 \<le> \<bar>rne (x / ulp x)\<bar>)"
    using False by (rule round_nearest_on_grid)
  have "round_nearest (of_int (rne (x / ulp x)) * 2 powr of_int (expo x - 23))
          = of_int (rne (x / ulp x)) * 2 powr of_int (expo x - 23)"
    using g expo_ge [of x] by (intro round_nearest_grid) simp_all
  then show ?thesis
    by (simp only: round_nearest_nz [OF False] ulp_def)
qed

subsection \<open>No overflow next to the largest float\<close>

lemma finite_le_max:
  assumes r: "round_nearest t = t" and b: "\<bar>t\<bar> < 2 ^ 128"
  shows "\<bar>t\<bar> \<le> 16777215 * 2 ^ 104"
proof (cases "\<bar>t\<bar> < 2 ^ 127")
  case True
  then show ?thesis by simp
next
  case False
  then have lo: "2 powr of_int 127 \<le> \<bar>t\<bar>" by simp
  have hi: "\<bar>t\<bar> < 2 powr of_int (127 + 1)" using b by simp
  have e: "expo t = 127" using lo hi by (rule expo_eqI) simp
  have ul: "ulp t = 2 ^ 104" by (simp add: ulp_def e)
  have nz: "t \<noteq> 0" using False by auto
  let ?n = "rne (t / ulp t)"
  have t: "t = of_int ?n * 2 ^ 104"
    using r round_nearest_nz [OF nz] ul by simp
  then have "\<bar>t\<bar> = \<bar>of_int ?n\<bar> * 2 ^ 104" by (simp add: abs_mult)
  with b have "\<bar>of_int ?n :: real\<bar> * 2 ^ 104 < 16777216 * 2 ^ 104" by simp
  then have "\<bar>of_int ?n :: real\<bar> < 16777216" by (simp only: mult_less_cancel_right_pos zero_less_power zero_less_numeral)
  then have "\<bar>?n\<bar> < 16777216" by linarith
  then have "\<bar>?n\<bar> \<le> 16777215" by linarith
  then have "\<bar>of_int ?n :: real\<bar> \<le> 16777215" by linarith
  then have "\<bar>of_int ?n :: real\<bar> * 2 ^ 104 \<le> 16777215 * 2 ^ 104"
    by (simp only: mult_le_cancel_right_pos zero_less_power zero_less_numeral)
  with \<open>\<bar>t\<bar> = \<bar>of_int ?n\<bar> * 2 ^ 104\<close> show ?thesis by simp
qed

lemma rne_near_top: "rne (67108861 / 4) = 16777215" "rne (- (67108861 / 4)) = - 16777215"
  by (simp_all add: rne_def)

lemma round_nearest_near_max:
  "round_nearest (16777215 * 2 ^ 104 + 2 ^ 102) = 16777215 * 2 ^ 104"
  "round_nearest (- (16777215 * 2 ^ 104 + 2 ^ 102)) = - (16777215 * 2 ^ 104)"
  using round_nearest_scaled [of 127 "67108861 / 4"] round_nearest_scaled [of 127 "- (67108861 / 4)"]
  by (simp_all add: rne_near_top)

lemma add_small_no_overflow:
  assumes "\<bar>t\<bar> \<le> 16777215 * 2 ^ 104" "\<bar>k\<bar> \<le> 2 ^ 102"
  shows "\<bar>round_nearest (t + k)\<bar> \<le> 16777215 * 2 ^ 104"
proof -
  have "t + k \<le> 16777215 * 2 ^ 104 + 2 ^ 102" using assms by linarith
  then have "round_nearest (t + k) \<le> round_nearest (16777215 * 2 ^ 104 + 2 ^ 102)"
    by (rule round_nearest_mono)
  then have up: "round_nearest (t + k) \<le> 16777215 * 2 ^ 104"
    by (simp only: round_nearest_near_max)
  have "- (16777215 * 2 ^ 104 + 2 ^ 102) \<le> t + k" using assms by linarith
  then have "round_nearest (- (16777215 * 2 ^ 104 + 2 ^ 102)) \<le> round_nearest (t + k)"
    by (rule round_nearest_mono)
  then have dn: "- (16777215 * 2 ^ 104) \<le> round_nearest (t + k)"
    by (simp only: round_nearest_near_max)
  from up dn show ?thesis by linarith
qed

subsection \<open>Results of operations\<close>

lemma to_f32_Finite: "\<bar>round_nearest x\<bar> < 2 ^ 128 \<Longrightarrow> to_f32 x = Finite (round_nearest x)"
  by (auto simp add: to_f32_def Let_def)

lemma to_f32_between:
  assumes "a \<le> x" "x \<le> b" "round_nearest a = a" "round_nearest b = b"
      and "- (2 ^ 128) < a" "b < 2 ^ 128"
  shows "\<exists>y. to_f32 x = Finite y \<and> a \<le> y \<and> y \<le> b"
proof -
  have "round_nearest a \<le> round_nearest x" using assms(1) by (rule round_nearest_mono)
  then have lo: "a \<le> round_nearest x" by (simp only: assms(3))
  have "round_nearest x \<le> round_nearest b" using assms(2) by (rule round_nearest_mono)
  then have hi: "round_nearest x \<le> b" by (simp only: assms(4))
  have "\<bar>round_nearest x\<bar> < 2 ^ 128" using lo hi assms(5,6) by linarith
  then have "to_f32 x = Finite (round_nearest x)" by (rule to_f32_Finite)
  with lo hi show ?thesis by blast
qed

lemma is_f32_to_f32: "is_f32 (to_f32 x)"
  by (auto simp add: to_f32_def Let_def round_nearest_idem)

lemma is_f32_f_add: "is_f32 (f_add a b)"
  by (cases a; cases b) (simp_all add: is_f32_to_f32)

lemma to_f32_exact: "round_nearest x = x \<Longrightarrow> \<bar>x\<bar> < 2 ^ 128 \<Longrightarrow> to_f32 x = Finite x"
  using to_f32_Finite [of x] by simp


lemma round_nearest_eight: "round_nearest 8 = 8"
  using round_nearest_scaled [of 3 8388608] by (simp add: powr_minus)

lemma round_nearest_2_31: "round_nearest (2 ^ 31) = 2 ^ 31"
  using round_nearest_scaled [of 31 8388608] by simp

lemma f_sin_bounds: "\<exists>s. f_sin (Finite a) = Finite s \<and> - 1 \<le> s \<and> s \<le> 1"
  using to_f32_between [of "- 1" "sin a" 1] by simp

lemma channel_bounds:
  "\<exists>v. f_add (Finite 0.5) (f_mul (Finite 0.5) (f_sin (Finite a))) = Finite v \<and> 0 \<le> v \<and> v \<le> 1"
proof -
  obtain s where s: "f_sin (Finite a) = Finite s" "- 1 \<le> s" "s \<le> 1"
    using f_sin_bounds by blast
  have "\<exists>m. to_f32 (0.5 * s) = Finite m \<and> - (1/2) \<le> m \<and> m \<le> 1/2"
    using s(2,3) by (intro to_f32_between) simp_all
  then obtain m where m: "to_f32 (0.5 * s) = Finite m" "- (1/2) \<le> m" "m \<le> 1/2" by blast
  have "\<exists>v. to_f32 (0.5 + m) = Finite v \<and> 0 \<le> v \<and> v \<le> 1"
    using m(2,3) by (intro to_f32_between) simp_all
  then obtain v where v: "to_f32 (0.5 + m) = Finite v" "0 \<le> v" "v \<le> 1" by blast
  have "f_add (Finite 0.5) (f_mul (Finite 0.5) (f_sin (Finite a))) = Finite v"
    by (simp only: s(1) f_mul.simps m(1) f_add.simps v(1))
  with v(2,3) show ?thesis by blast
qed

lemma shifted_phase_finite:
  assumes "is_f32 (Finite t)" "0 \<le> k" "k \<le> 8"
  shows "\<exists>t'. f_add (Finite t) (to_f32 k) = Finite t'"
proof -
  have "\<exists>c. to_f32 k = Finite c \<and> 0 \<le> c \<and> c \<le> 8"
    using assms(2,3) by (intro to_f32_between) (simp_all add: round_nearest_eight)
  then obtain c where c: "to_f32 k = Finite c" "0 \<le> c" "c \<le> 8" by blast
  have "\<bar>t\<bar> \<le> 16777215 * 2 ^ 104"
    using assms(1) by (intro finite_le_max) simp_all
  moreover have "\<bar>c\<bar> \<le> 2 ^ 102" using c(2,3) by simp
  ultimately have "\<bar>round_nearest (t + c)\<bar> \<le> 16777215 * 2 ^ 104"
    by (rule add_small_no_overflow)
  then have "\<bar>round_nearest (t + c)\<bar> < 2 ^ 128" by simp
  then have "to_f32 (t + c) = Finite (round_nearest (t + c))" by (rule to_f32_Finite)
  then show ?thesis by (simp add: c(1))
qed

lemma shifted_channel_bounds:
  assumes "is_f32 (Finite t)" "0 \<le> k" "k \<le> 8"
  shows "\<exists>v. f_add (Finite 0.5) (f_mul (Finite 0.5) (f_sin (f_add (Finite t) (to_f32 k)))) = Finite v
             \<and> 0 \<le> v \<and> v \<le> 1"
proof -
  obtain t' where "f_add (Finite t) (to_f32 k) = Finite t'"
    using shifted_phase_finite [OF assms] by blast
  then show ?thesis using channel_bounds [of t'] by simp
qed

subsection \<open>The loop body\<close>

lemma update_cube_f32_fields:
  "animation_time32 (update_cube_f32 dt c) = f_add (animation_time32 c) (f_mul dt (rotation_speed32 c))"
  "rotation_speed32 (update_cube_f32 dt c) = rotation_speed32 c"
  "color32 (update_cube_f32 dt c) =
     (f_add (Finite 0.5) (f_mul (Finite 0.5) (f_sin (animation_time32 (update_cube_f32 dt c)))),
      f_add (Finite 0.5) (f_mul (Finite 0.5)
        (f_sin (f_add (animation_time32 (update_cube_f32 dt c)) (to_f32 2.094)))),
      f_add (Finite 0.5) (f_mul (Finite 0.5)
        (f_sin (f_add (animation_time32 (update_cube_f32 dt c)) (to_f32 4.188)))))"
  by (simp_all add: update_cube_f32_def Let_def)

text \<open>
  Claim C7, amended: whenever the phase of a cube after an update is finite (neither an
  infinity nor NaN), its three colour channels, computed in float32 as
  \<open>0.5f + 0.5f * sin(phase)\<close>, \<open>0.5f + 0.5f * sin(phase + 2.094f)\<close> and
  \<open>0.5f + 0.5f * sin(phase + 4.188f)\<close>, are finite and lie in [0, 1].
\<close>

theorem colour_channels_finite_phase:
  assumes "animation_time32 (update_cube_f32 dt c) = Finite t"
  shows "color32 (update_cube_f32 dt c) =
           (f_add (Finite 0.5) (f_mul (Finite 0.5) (f_sin (Finite t))),
            f_add (Finite 0.5) (f_mul (Finite 0.5) (f_sin (f_add (Finite t) (to_f32 2.094)))),
            f_add (Finite 0.5) (f_mul (Finite 0.5) (f_sin (f_add (Finite t) (to_f32 4.188))))) \<and>
         f_le (Finite 0) (fst (color32 (update_cube_f32 dt c))) \<and>
         f_le (fst (color32 (update_cube_f32 dt c))) (Finite 1) \<and>
         f_le (Finite 0) (fst (snd (color32 (update_cube_f32 dt c)))) \<and>
         f_le (fst (snd (color32 (update_cube_f32 dt c)))) (Finite 1) \<and>
         f_le (Finite 0) (snd (snd (color32 (update_cube_f32 dt c)))) \<and>
         f_le (snd (snd (color32 (update_cube_f32 dt c)))) (Finite 1)"
proof -
  have "is_f32 (f_add (animation_time32 c) (f_mul dt (rotation_speed32 c)))"
    by (rule is_f32_f_add)
  then have t: "is_f32 (Finite t)"
    using assms by (simp only: update_cube_f32_fields(1))
  have col: "color32 (update_cube_f32 dt c) =
           (f_add (Finite 0.5) (f_mul (Finite 0.5) (f_sin (Finite t))),
            f_add (Finite 0.5) (f_mul (Finite 0.5) (f_sin (f_add (Finite t) (to_f32 2.094)))),
            f_add (Finite 0.5) (f_mul (Finite 0.5) (f_sin (f_add (Finite t) (to_f32 4.188)))))"
    using update_cube_f32_fields(3) [of dt c] by (simp only: assms)
  obtain v1 where v1: "f_add (Finite 0.5) (f_mul (Finite 0.5) (f_sin (Finite t))) = Finite v1"
      "0 \<le> v1" "v1 \<le> 1"
    using channel_bounds [of t] by blast
  obtain v2 where v2: "f_add (Finite 0.5) (f_mul (Finite 0.5) (f_sin (f_add (Finite t) (to_f32 2.094)))) = Finite v2"
      "0 \<le> v2" "v2 \<le> 1"
    using shifted_channel_bounds [OF t, of "2.094"] by auto
  obtain v3 where v3: "f_add (Finite 0.5) (f_mul (Finite 0.5) (f_sin (f_add (Finite t) (to_f32 4.188)))) = Finite v3"
      "0 \<le> v3" "v3 \<le> 1"
    using shifted_channel_bounds [OF t, of "4.188"] by auto
  show ?thesis
    unfolding col v1(1) v2(1) v3(1) using v1(2,3) v2(2,3) v3(2,3) by simp
qed

lemma round_nearest_big_numerals [simp]:
  "round_nearest 170141183460469231731687303715884105728 = 170141183460469231731687303715884105728"
  "round_nearest 340282366920938463463374607431768211456 = 340282366920938463463374607431768211456"
  "round_nearest 2147483648 = 2147483648"
  using round_nearest_2_127 round_nearest_2_128 round_nearest_2_31 by simp_all

lemma to_f32_simps [simp]:
  "to_f32 0 = Finite 0"
  "to_f32 1 = Finite 1"
  "to_f32 32767 = Finite 32767"
  "to_f32 16777216 = Finite 16777216"
  "to_f32 16777217 = Finite 16777216"
  "to_f32 (2 ^ 127) = Finite (2 ^ 127)"
  "to_f32 (2 ^ 128) = PInf"
  by (simp_all add: to_f32_def Let_def round_nearest_32767 round_nearest_2_24
        round_nearest_absorbs)

lemma overflow_sum: "f_add (Finite (2 ^ 127)) (f_mul (Finite (2 ^ 127)) (Finite 1)) = PInf"
  "f_add (Finite 0) (f_mul (Finite (2 ^ 127)) (Finite 1)) = Finite (2 ^ 127)"
  by (simp_all add: to_f32_def Let_def)

lemma speed_f32_rand_zero: "speed_f32 32767 0 = Finite 1"
  by (simp add: speed_f32_def)

text \<open>
  Claim C7 says that the channels lie in [0, 1] for every value of the phase. The phase
  is a float and can overflow: the default cube of a new renderer (speed 1, \<open>rand()\<close>
  returned 0) stepped twice by \<open>2 ^ 127\<close> seconds has phase \<open>2 ^ 127\<close> and then plus
  infinity, where the sine is NaN and so is the red channel, which is then neither at
  least 0 nor at most 1.
\<close>

theorem colour_nan_counterexample:
  "animation_time32 (update_cube_f32 (Finite (2 ^ 127))
       (new_cube_f32 32767 (Finite 0) (Finite 0) (Finite 0) (Finite 1) 0)) = Finite (2 ^ 127) \<and>
   animation_time32 (update_cube_f32 (Finite (2 ^ 127)) (update_cube_f32 (Finite (2 ^ 127))
       (new_cube_f32 32767 (Finite 0) (Finite 0) (Finite 0) (Finite 1) 0))) = PInf \<and>
   fst (color32 (update_cube_f32 (Finite (2 ^ 127)) (update_cube_f32 (Finite (2 ^ 127))
       (new_cube_f32 32767 (Finite 0) (Finite 0) (Finite 0) (Finite 1) 0)))) = NaN \<and>
   \<not> f_le (Finite 0) (fst (color32 (update_cube_f32 (Finite (2 ^ 127)) (update_cube_f32 (Finite (2 ^ 127))
       (new_cube_f32 32767 (Finite 0) (Finite 0) (Finite 0) (Finite 1) 0))))) \<and>
   \<not> f_le (fst (color32 (update_cube_f32 (Finite (2 ^ 127)) (update_cube_f32 (Finite (2 ^ 127))
       (new_cube_f32 32767 (Finite 0) (Finite 0) (Finite 0) (Finite 1) 0))))) (Finite 1)"
proof -
  let ?c0 = "new_cube_f32 32767 (Finite 0) (Finite 0) (Finite 0) (Finite 1) 0"
  let ?c1 = "update_cube_f32 (Finite (2 ^ 127)) ?c0"
  let ?c2 = "update_cube_f32 (Finite (2 ^ 127)) ?c1"
  have p0: "animation_time32 ?c0 = Finite 0" and s0: "rotation_speed32 ?c0 = Finite 1"
    by (simp_all add: new_cube_f32_def speed_f32_rand_zero)
  have p1: "animation_time32 ?c1 = Finite (2 ^ 127)"
    by (simp only: update_cube_f32_fields(1) p0 s0 overflow_sum)
  have s1: "rotation_speed32 ?c1 = Finite 1"
    by (simp only: update_cube_f32_fields(2) s0)
  have p2: "animation_time32 ?c2 = PInf"
    by (simp only: update_cube_f32_fields(1) [of _ ?c1] p1 s1 overflow_sum)
  have "fst (color32 ?c2) = f_add (Finite 0.5) (f_mul (Finite 0.5) (f_sin (animation_time32 ?c2)))"
    by (simp only: update_cube_f32_fields(3) [of "Finite (2 ^ 127)" ?c1] fst_conv)
  then have r: "fst (color32 ?c2) = NaN" by (simp only: p2 f_sin.simps f_mul.simps f_add.simps)
  have n1: "\<not> f_le (Finite 0) (fst (color32 ?c2))" by (simp only: r f_le.simps not_False_eq_True)
  have n2: "\<not> f_le (fst (color32 ?c2)) (Finite 1)" by (simp only: r f_le.simps not_False_eq_True)
  from p1 p2 r n1 n2 show ?thesis by blast
qed

theorem colour_channels_finite_phase_witness:
  "animation_time32 (update_cube_f32 (Finite 0)
       (new_cube_f32 32767 (Finite 0) (Finite 0) (Finite 0) (Finite 1) 0)) = Finite 0 \<and>
   fst (color32 (update_cube_f32 (Finite 0)
       (new_cube_f32 32767 (Finite 0) (Finite 0) (Finite 0) (Finite 1) 0))) = Finite (1/2) \<and>
   f_le (Finite 0) (snd (snd (color32 (update_cube_f32 (Finite 0)
       (new_cube_f32 32767 (Finite 0) (Finite 0) (Finite 0) (Finite 1) 0))))) \<and>
   f_le (snd (snd (color32 (update_cube_f32 (Finite 0)
       (new_cube_f32 32767 (Finite 0) (Finite 0) (Finite 0) (Finite 1) 0))))) (Finite 1)"
proof -
  let ?c0 = "new_cube_f32 32767 (Finite 0) (Finite 0) (Finite 0) (Finite 1) 0"
  let ?c1 = "update_cube_f32 (Finite 0) ?c0"
  have p0: "animation_time32 ?c0 = Finite 0" and s0: "rotation_speed32 ?c0 = Finite 1"
    by (simp_all add: new_cube_f32_def speed_f32_rand_zero)
  have p1: "animation_time32 ?c1 = Finite 0"
    by (simp add: update_cube_f32_fields(1) p0 s0)
  note th = colour_channels_finite_phase [OF p1]
  have "fst (color32 ?c1) = f_add (Finite 0.5) (f_mul (Finite 0.5) (f_sin (Finite 0)))"
    using th by simp
  then have r: "fst (color32 ?c1) = Finite (1/2)"
    by (simp add: to_f32_exact)
  from th have lo: "f_le (Finite 0) (snd (snd (color32 ?c1)))" by blast
  from th have hi: "f_le (snd (snd (color32 ?c1))) (Finite 1)" by blast
  from p1 r lo hi show ?thesis by blast
qed







end
